theory Spec2Isabelle
  imports Main "HOL-Library.Word"
begin

unbundle bit_operations_syntax

section \<open>Buffers and the runtime primitives used by the codec\<close>

text \<open>
  A Node \<open>Buffer\<close> is a list of bytes. The numbers handled by the codec are
  non-negative integers; on them the 32-bit operators of the source
  (\<open>&\<close>, \<open>|\<close>, \<open><<\<close>, \<open>>>\<close>) are applied only to operands below \<open>2 ^ 31\<close> or
  with a mask below \<open>2 ^ 31\<close>, where they agree with the bit operations on \<open>nat\<close>.
  Storing a number into a buffer keeps its low eight bits.
\<close>

type_synonym byte = "8 word"
type_synonym Buffer = "byte list"

datatype error = RangeError

text \<open>\<open>buf.subarray(start)\<close> and \<open>buf.subarray(start, end)\<close>: both clamp to the buffer.\<close>

definition subarray :: "Buffer \<Rightarrow> nat \<Rightarrow> Buffer" where
  "subarray buf start = drop start buf"

definition subarray2 :: "Buffer \<Rightarrow> nat \<Rightarrow> nat \<Rightarrow> Buffer" where
  "subarray2 buf start end = take (end - start) (drop start buf)"

text \<open>
  \<open>sub[i]\<close> as an operand of \<open>|\<close> or \<open><<\<close>: an index past the end reads
  \<open>undefined\<close>, which these operators coerce to 0.
\<close>

definition byteAt :: "Buffer \<Rightarrow> nat \<Rightarrow> nat" where
  "byteAt sub i = (if i < length sub then unat (sub ! i) else 0)"

text \<open>
  \<open>buf.readUInt32BE(offset)\<close> throws a RangeError unless four bytes are present
  from \<open>offset\<close> on.
\<close>

definition readUInt32BE :: "Buffer \<Rightarrow> nat \<Rightarrow> error + nat" where
  "readUInt32BE buf offset =
     (if offset + 4 \<le> length buf
      then Inr (unat (buf ! offset) * 2 ^ 24 + unat (buf ! (offset + 1)) * 2 ^ 16
                + unat (buf ! (offset + 2)) * 2 ^ 8 + unat (buf ! (offset + 3)))
      else Inl RangeError)"

text \<open>
  The four bytes stored by \<open>buf.writeUInt32BE(value, offset)\<close>; the call throws a
  RangeError for a value above \<open>0xFFFFFFFF\<close>.
\<close>

definition writeUInt32BE :: "nat \<Rightarrow> error + Buffer" where
  "writeUInt32BE v =
     (if v \<le> 0xFFFFFFFF
      then Inr [of_nat (drop_bit 24 v), of_nat (drop_bit 16 v), of_nat (drop_bit 8 v), of_nat v]
      else Inl RangeError)"

text \<open>The two bytes stored by \<open>buf.writeUInt16BE(value, offset)\<close>.\<close>

definition writeUInt16BE :: "nat \<Rightarrow> error + Buffer" where
  "writeUInt16BE v =
     (if v \<le> 0xFFFF then Inr [of_nat (drop_bit 8 v), of_nat v] else Inl RangeError)"

section \<open>The variable-length integer codec (src/mumble-audio.ts)\<close>

record varint =
  "value" :: nat
  bytesRead :: nat

definition readVarint :: "Buffer \<Rightarrow> nat \<Rightarrow> error + varint" where
  "readVarint buffer offset =
     (let sub = subarray buffer offset in
      if length sub = 0 then Inr \<lparr>value = 0, bytesRead = 0\<rparr>
      else
        let b0 = unat (sub ! 0) in
        if b0 AND 0x80 = 0 then Inr \<lparr>value = b0, bytesRead = 1\<rparr>
        else if b0 AND 0xc0 = 0x80 then
          Inr \<lparr>value = push_bit 8 (b0 AND 0x3f) OR byteAt sub 1, bytesRead = 2\<rparr>
        else if b0 AND 0xe0 = 0xc0 then
          Inr \<lparr>value = push_bit 16 (b0 AND 0x1f) OR push_bit 8 (byteAt sub 1) OR byteAt sub 2,
               bytesRead = 3\<rparr>
        else if b0 AND 0xf0 = 0xe0 then
          Inr \<lparr>value = push_bit 24 (b0 AND 0x0f) OR push_bit 16 (byteAt sub 1)
                        OR push_bit 8 (byteAt sub 2) OR byteAt sub 3,
               bytesRead = 4\<rparr>
        else if b0 AND 0xfc = 0xf0 then
          (case readUInt32BE sub 1 of
             Inl e \<Rightarrow> Inl e
           | Inr v \<Rightarrow> Inr \<lparr>value = v, bytesRead = 5\<rparr>)
        else Inr \<lparr>value = 0, bytesRead = 1\<rparr>)"

definition writeVarint :: "nat \<Rightarrow> error + Buffer" where
  "writeVarint v =
     (if v < 0x80 then Inr [of_nat v]
      else if v < 0x4000 then Inr [of_nat (0x80 OR drop_bit 8 v), of_nat (v AND 0xff)]
      else if v < 0x200000 then
        Inr [of_nat (0xc0 OR drop_bit 16 v), of_nat (drop_bit 8 v AND 0xff), of_nat (v AND 0xff)]
      else if v < 0x10000000 then
        Inr [of_nat (0xe0 OR drop_bit 24 v), of_nat (drop_bit 16 v AND 0xff),
             of_nat (drop_bit 8 v AND 0xff), of_nat (v AND 0xff)]
      else
        (case writeUInt32BE v of
           Inl e \<Rightarrow> Inl e
         | Inr bytes \<Rightarrow> Inr (0xf0 # bytes)))"

section \<open>The encoder of the compiled module (dist/mumble-audio.js)\<close>

text \<open>
  \<open>writeVarint\<close> as the compiled module under \<open>dist/\<close> has it: a loop that emits
  seven bits per byte, least significant group first. \<open>value >>>= 7\<close> first reduces the
  number to an unsigned 32-bit integer.
\<close>

function writeVarint_dist :: "nat \<Rightarrow> Buffer" where
  "writeVarint_dist v =
     (if v > 0x7f
      then of_nat ((v AND 0x7f) OR 0x80) # writeVarint_dist (drop_bit 7 (take_bit 32 v))
      else [of_nat (v AND 0x7f)])"
  by pat_completeness auto
termination
proof (relation "measure id")
  show "wf (measure id)" by simp
next
  fix v :: nat
  assume big: "0x7f < v"
  have "take_bit 32 v \<le> v" by (rule take_bit_nat_less_eq_self)
  then have "drop_bit 7 (take_bit 32 v) \<le> v div 128"
    unfolding drop_bit_eq_div by (simp add: div_le_mono)
  also have "\<dots> < v" using big by simp
  finally show "(drop_bit 7 (take_bit 32 v), v) \<in> measure id" by simp
qed

section \<open>The audio packet codec (src/mumble-audio.ts)\<close>

text \<open>The numeric enum \<open>AudioCodec\<close>.\<close>

definition CELT_Alpha :: nat where "CELT_Alpha = 0"
definition Ping :: nat where "Ping = 1"
definition Speex :: nat where "Speex = 2"
definition CELT_Beta :: nat where "CELT_Beta = 3"
definition Opus :: nat where "Opus = 4"

text \<open>
  The argument object of \<open>createAudioPacket\<close>, and \<open>FullAudioPacket\<close>, which has the
  same five fields and the source session in addition.
\<close>

record AudioParams =
  codec :: nat
  target :: nat
  sequence :: nat
  audioData :: Buffer
  isTerminator :: bool

record FullAudioPacket = AudioParams +
  source :: nat

text \<open>\<open>null\<close> is \<open>None\<close>; an exception escaping the function is \<open>Inl\<close>.\<close>

definition parseAudioPacket :: "Buffer \<Rightarrow> error + FullAudioPacket option" where
  "parseAudioPacket data =
     (if length data < 1 then Inr None
      else
        let header = unat (data ! 0);
            codec' = drop_bit 5 header AND 0x07;
            target' = header AND 0x1f
        in
        case readVarint data 1 of
          Inl e \<Rightarrow> Inl e
        | Inr session \<Rightarrow>
            let offset = 1 + bytesRead session in
            case readVarint data offset of
              Inl e \<Rightarrow> Inl e
            | Inr sequence' \<Rightarrow>
                let offset = offset + bytesRead sequence' in
                if codec' = Opus then
                  (case readVarint data offset of
                     Inl e \<Rightarrow> Inl e
                   | Inr opusHeader \<Rightarrow>
                       let offset = offset + bytesRead opusHeader;
                           isTerminator' = (value opusHeader AND 0x2000 \<noteq> 0);
                           audioLength = value opusHeader AND 0x1fff
                       in
                       if offset + audioLength > length data then Inr None
                       else
                         let audioData' = subarray2 data offset (offset + audioLength) in
                         Inr (Some \<lparr>codec = codec', target = target',
                                    sequence = value sequence', audioData = audioData',
                                    isTerminator = isTerminator', source = value session\<rparr>))
                else
                  Inr (Some \<lparr>codec = codec', target = target', sequence = value sequence',
                             audioData = subarray data offset, isTerminator = False,
                             source = value session\<rparr>))"

definition createAudioPacket :: "AudioParams \<Rightarrow> error + Buffer" where
  "createAudioPacket params =
     (let header = push_bit 5 (codec params AND 0x07) OR (target params AND 0x1f) in
      case writeVarint (sequence params) of
        Inl e \<Rightarrow> Inl e
      | Inr sequenceVarint \<Rightarrow>
          if codec params = Opus then
            let lengthValue = length (audioData params) AND 0x1fff;
                lengthValue = (if isTerminator params then lengthValue OR 0x2000
                               else lengthValue)
            in
            case writeVarint lengthValue of
              Inl e \<Rightarrow> Inl e
            | Inr lengthVarint \<Rightarrow>
                Inr ([of_nat header] @ sequenceVarint @ lengthVarint @ audioData params)
          else Inr ([of_nat header] @ sequenceVarint @ audioData params))"

section \<open>The outbound stream (class MumbleAudioStream)\<close>

text \<open>
  The state touched by \<open>sendAudio\<close>: the private counter \<open>sequence\<close> and the buffers
  handed to \<open>socket.write\<close>, oldest first; the socket is taken to accept every buffer.
\<close>

record MumbleAudioStream =
  stream_sequence :: nat
  socket_written :: "Buffer list"

definition new_MumbleAudioStream :: MumbleAudioStream where
  "new_MumbleAudioStream = \<lparr>stream_sequence = 0, socket_written = []\<rparr>"

text \<open>
  \<open>this.sequence++\<close>: the counter is a double. Counting up from 0 in steps of 1 is exact
  up to \<open>2 ^ 53\<close>; there \<open>sequence + 1\<close> rounds back to \<open>2 ^ 53\<close> and the counter
  stays. The counter is only changed here, so it takes no value above \<open>2 ^ 53\<close>.
\<close>

definition postIncrement :: "nat \<Rightarrow> nat" where
  "postIncrement s = (if s < 2 ^ 53 then s + 1 else s)"

text \<open>
  The second half of \<open>sendAudio\<close>: the six-byte prefix and the write. The counter has
  been incremented by then.
\<close>

definition tunnelWrite ::
  "MumbleAudioStream \<Rightarrow> Buffer \<Rightarrow> (error + unit) \<times> MumbleAudioStream" where
  "tunnelWrite this packet =
     (case writeUInt16BE 1 of
        Inl e \<Rightarrow> (Inl e, this)
      | Inr typeTag \<Rightarrow>
          case writeUInt32BE (length packet) of
            Inl e \<Rightarrow> (Inl e, this)
          | Inr len \<Rightarrow>
              (Inr (), this\<lparr>socket_written :=
                              socket_written this @ [(typeTag @ len) @ packet]\<rparr>))"

definition sendAudio ::
  "MumbleAudioStream \<Rightarrow> Buffer \<Rightarrow> nat \<Rightarrow> nat \<Rightarrow> bool
     \<Rightarrow> (error + unit) \<times> MumbleAudioStream" where
  "sendAudio this audioData' codec' target' isTerminator' =
     (let seq = stream_sequence this;
          this = this\<lparr>stream_sequence := postIncrement seq\<rparr>
      in
      case createAudioPacket \<lparr>codec = codec', target = target', sequence = seq,
                              audioData = audioData', isTerminator = isTerminator'\<rparr> of
        Inl e \<Rightarrow> (Inl e, this)
      | Inr packet \<Rightarrow> tunnelWrite this packet)"


section \<open>Speech segmentation (VoiceChatClient.handleAudioPacket)\<close>

text \<open>
  Only the declaration of \<open>VoiceChatClient\<close> is at hand (dist/voice-chat-client.d.ts);
  the body of \<open>handleAudioPacket\<close> and of the flush it triggers is not. The
  definitions of this section follow section 4.5 of the specification.
\<close>

type_synonym pcm = "16 word list"

text \<open>
  Modelled from the spec: the thresholds record of section 3 (the configuration read by
  the missing \<open>handleAudioPacket\<close>); an empty allow-list admits every source.
\<close>

record Thresholds =
  minSpeechDurationMs :: nat
  silenceTimeoutMs :: nat
  allowList :: "nat list"

text \<open>
  Modelled from the spec: the outcome of one flush of the missing \<open>processSpeech\<close>
  step: whose audio was drained, and whether it was handed on for transcription.
\<close>

record FlushEvent =
  flush_source :: nat
  flush_audio :: pcm
  forwarded :: bool

text \<open>
  Modelled from the spec: the private maps \<open>userAudio\<close> and \<open>silenceTimers\<close> of the
  missing class body: the accumulator of every live session, the deadline of every armed
  silence timer, and the flushes so far, oldest first.
\<close>

record Segmenter =
  sessions :: "nat \<rightharpoonup> pcm"
  silenceTimers :: "nat \<rightharpoonup> nat"
  flushes :: "FlushEvent list"

text \<open>
  Modelled from the spec: the duration of accumulated audio in the missing flush step,
  for mono PCM at 48 kHz (section 4.3).
\<close>

definition durationMs :: "pcm \<Rightarrow> nat" where
  "durationMs samples = length samples * 1000 div 48000"

text \<open>
  Modelled from the spec: the allow-list test of the missing flush step (section 4.5: it
  applies when the allow-list is non-empty).
\<close>

definition allowed :: "Thresholds \<Rightarrow> nat \<Rightarrow> bool" where
  "allowed cfg src = (allowList cfg = [] \<or> src \<in> set (allowList cfg))"

text \<open>
  Modelled from the spec: the missing flush step (section 4.5, "On flush"): the session
  is drained and removed; the audio is forwarded unless it is shorter than
  \<open>minSpeechDurationMs\<close> or its source is not allowed.
\<close>

definition flush :: "Thresholds \<Rightarrow> Segmenter \<Rightarrow> nat \<Rightarrow> Segmenter" where
  "flush cfg st src =
     (case sessions st src of
        None \<Rightarrow> st
      | Some buf \<Rightarrow>
          st\<lparr>sessions := (sessions st)(src := None),
             silenceTimers := (silenceTimers st)(src := None),
             flushes := flushes st @
               [\<lparr>flush_source = src, flush_audio = buf,
                 forwarded = (\<not> durationMs buf < minSpeechDurationMs cfg \<and> allowed cfg src)\<rparr>]\<rparr>)"

text \<open>
  Modelled from the spec: the missing \<open>handleAudioPacket\<close> (section 4.5), applied to a
  packet of source \<open>src\<close> whose payload decoded to \<open>samples\<close>, at time \<open>now\<close>: the
  samples are appended to the session, created if need be; a terminator cancels the
  silence timer and flushes at once; any other packet re-arms the timer.
\<close>

definition handleAudioPacket ::
  "Thresholds \<Rightarrow> nat \<Rightarrow> Segmenter \<Rightarrow> nat \<Rightarrow> pcm \<Rightarrow> bool \<Rightarrow> Segmenter" where
  "handleAudioPacket cfg now st src samples terminator =
     (let buf = (case sessions st src of None \<Rightarrow> [] | Some b \<Rightarrow> b) @ samples;
          st = st\<lparr>sessions := (sessions st)(src \<mapsto> buf)\<rparr>
      in
      if terminator
      then flush cfg (st\<lparr>silenceTimers := (silenceTimers st)(src := None)\<rparr>) src
      else st\<lparr>silenceTimers := (silenceTimers st)(src \<mapsto> now + silenceTimeoutMs cfg)\<rparr>)"

text \<open>
  Modelled from the spec: the missing silence-timer callback (section 4.5): expiry of an
  armed timer flushes whatever has accumulated.
\<close>

definition silenceTimerExpired :: "Thresholds \<Rightarrow> Segmenter \<Rightarrow> nat \<Rightarrow> Segmenter" where
  "silenceTimerExpired cfg st src =
     (case silenceTimers st src of
        None \<Rightarrow> st
      | Some deadline \<Rightarrow> flush cfg (st\<lparr>silenceTimers := (silenceTimers st)(src := None)\<rparr>) src)"

section \<open>Bit operations as arithmetic\<close>

lemma and_shifted_mask:
  "(x::nat) AND push_bit k (mask m) = push_bit k (take_bit m (drop_bit k x))"
  by (rule bit_eqI) (auto simp add: bit_simps)

lemma or_add:
  assumes "b < 2 ^ k" shows "push_bit k a OR b = a * 2 ^ k + (b::nat)"
proof -
  have "take_bit k b = b" using assms by (simp add: take_bit_eq_mod)
  then have "\<not> bit (push_bit k a) n \<or> \<not> bit b n" for n
    by (metis bit_push_bit_iff bit_take_bit_iff not_le)
  then have "push_bit k a + b = push_bit k a OR b"
    by (rule disjunctive_add)
  then show ?thesis by (simp add: push_bit_eq_mult)
qed

lemmas to_arith = push_bit_eq_mult take_bit_eq_mod drop_bit_eq_div mask_eq_exp_minus_1

lemma and_0x80: "(x::nat) AND 0x80 = (x div 128 mod 2) * 128"
  using and_shifted_mask [of x 7 1] by (simp add: to_arith)

lemma and_0xc0: "(x::nat) AND 0xc0 = (x div 64 mod 4) * 64"
  using and_shifted_mask [of x 6 2] by (simp add: to_arith)

lemma and_0xe0: "(x::nat) AND 0xe0 = (x div 32 mod 8) * 32"
  using and_shifted_mask [of x 5 3] by (simp add: to_arith)

lemma and_0xf0: "(x::nat) AND 0xf0 = (x div 16 mod 16) * 16"
  using and_shifted_mask [of x 4 4] by (simp add: to_arith)

lemma and_0xfc: "(x::nat) AND 0xfc = (x div 4 mod 64) * 4"
  using and_shifted_mask [of x 2 6] by (simp add: to_arith)

lemma and_0x2000: "(x::nat) AND 0x2000 = (x div 8192 mod 2) * 8192"
  using and_shifted_mask [of x 13 1] by (simp add: to_arith)

lemma and_0x07: "(x::nat) AND 0x07 = x mod 8"
  using and_shifted_mask [of x 0 3] by (simp add: to_arith)

lemma and_0x0f: "(x::nat) AND 0x0f = x mod 16"
  using and_shifted_mask [of x 0 4] by (simp add: to_arith)

lemma and_0x1f: "(x::nat) AND 0x1f = x mod 32"
  using and_shifted_mask [of x 0 5] by (simp add: to_arith)

lemma and_0x3f: "(x::nat) AND 0x3f = x mod 64"
  using and_shifted_mask [of x 0 6] by (simp add: to_arith)

lemma and_0x7f: "(x::nat) AND 0x7f = x mod 128"
  using and_shifted_mask [of x 0 7] by (simp add: to_arith)

lemma and_0xff: "(x::nat) AND 0xff = x mod 256"
  using and_shifted_mask [of x 0 8] by (simp add: to_arith)

lemma and_0x1fff: "(x::nat) AND 0x1fff = x mod 8192"
  using and_shifted_mask [of x 0 13] by (simp add: to_arith)

lemma or_0x80: "h < 128 \<Longrightarrow> 0x80 OR h = 128 + (h::nat)"
  using or_add [of h 7 1] by simp

lemma or_0xc0: "h < 64 \<Longrightarrow> 0xc0 OR h = 192 + (h::nat)"
  using or_add [of h 6 3] by simp

lemma or_0xe0: "h < 32 \<Longrightarrow> 0xe0 OR h = 224 + (h::nat)"
  using or_add [of h 5 7] by simp

lemma or_0x2000: "h < 8192 \<Longrightarrow> h OR 0x2000 = 8192 + (h::nat)"
  using or_add [of h 13 1] by (simp add: or.commute)

lemma unat_byte_lt: "unat (b::byte) < 256"
  using unsigned_less [of b, where ?'a = nat] by simp

lemma unat_of_nat_byte: "unat (of_nat n :: byte) = n mod 256"
  by (simp add: unat_of_nat)

lemma byteAt_lt: "byteAt sub i < 256"
  by (simp add: byteAt_def unat_byte_lt)

lemma shift_or_2: "b < 256 \<Longrightarrow> push_bit 8 a OR b = a * 256 + (b::nat)"
  using or_add [of b 8 a] by simp

lemma div_eq_range: "0 < d \<Longrightarrow> ((n::nat) div d = k) = (k * d \<le> n \<and> n < (k + 1) * d)"
  by (metis Suc_eq_plus1 div_nat_eqI less_eq_div_iff_mult_less_eq mult.commute
      div_less_iff_less_mult less_Suc_eq_le nle_le)

lemma prefix_test:
  assumes "n < m * d" "0 < d"
  shows "((n div d mod m) * d = k * d) = (k * d \<le> n \<and> n < (k + 1) * (d::nat))"
proof -
  have "n div d < m" using assms by (simp add: div_less_iff_less_mult mult.commute)
  then have "n div d mod m = n div d" by simp
  then have "((n div d mod m) * d = k * d) = (n div d = k)" using assms by simp
  then show ?thesis using assms by (simp add: div_eq_range)
qed

lemma low_bits:
  assumes "k * d \<le> n" "n < (k + 1) * (d::nat)"
  shows "n mod d = n - k * d"
proof -
  have "n = (n - k * d) + k * d" using assms by simp
  then have "n mod d = (n - k * d) mod d" by (metis mod_mult_self1)
  moreover have "n - k * d < d" using assms by (simp add: algebra_simps)
  ultimately show ?thesis by simp
qed

lemma test_0x80: "n < 256 \<Longrightarrow> ((n::nat) AND 0x80 = 0) = (n < 0x80)"
  unfolding and_0x80 using prefix_test [of n 2 128 0] by simp
lemma test_0xc0: "n < 256 \<Longrightarrow> ((n::nat) AND 0xc0 = 0x80) = (0x80 \<le> n \<and> n < 0xc0)"
  unfolding and_0xc0 using prefix_test [of n 4 64 2] by simp
lemma test_0xe0: "n < 256 \<Longrightarrow> ((n::nat) AND 0xe0 = 0xc0) = (0xc0 \<le> n \<and> n < 0xe0)"
  unfolding and_0xe0 using prefix_test [of n 8 32 6] by simp
lemma test_0xf0: "n < 256 \<Longrightarrow> ((n::nat) AND 0xf0 = 0xe0) = (0xe0 \<le> n \<and> n < 0xf0)"
  unfolding and_0xf0 using prefix_test [of n 16 16 14] by simp
lemma test_0xfc: "n < 256 \<Longrightarrow> ((n::nat) AND 0xfc = 0xf0) = (0xf0 \<le> n \<and> n < 0xf4)"
  unfolding and_0xfc using prefix_test [of n 64 4 60] by simp
lemma low_0x3f: "0x80 \<le> n \<Longrightarrow> n < 0xc0 \<Longrightarrow> (n::nat) AND 0x3f = n - 0x80"
  unfolding and_0x3f using low_bits [of 2 64 n] by simp
lemma low_0x1f: "0xc0 \<le> n \<Longrightarrow> n < 0xe0 \<Longrightarrow> (n::nat) AND 0x1f = n - 0xc0"
  unfolding and_0x1f using low_bits [of 6 32 n] by simp
lemma low_0x0f: "0xe0 \<le> n \<Longrightarrow> n < 0xf0 \<Longrightarrow> (n::nat) AND 0x0f = n - 0xe0"
  unfolding and_0x0f using low_bits [of 14 16 n] by simp

section \<open>The varint codec: decoding and encoding in arithmetic form\<close>

lemma shift_or_3_sum:
  assumes "b < 256" "c < 256"
  shows "push_bit 16 a OR (b * 256 + c) = a * 65536 + b * 256 + (c::nat)"
proof -
  have "b * 256 + c < 2 ^ 16" using assms by simp
  then show ?thesis using or_add [of "b * 256 + c" 16 a] by simp
qed

lemma shift_or_4_sum:
  assumes "b < 256" "c < 256" "d < 256"
  shows "push_bit 24 a OR (b * 65536 + c * 256 + d)
         = a * 16777216 + b * 65536 + c * 256 + (d::nat)"
proof -
  have "b * 65536 + c * 256 + d < 2 ^ 24" using assms by simp
  then show ?thesis using or_add [of "b * 65536 + c * 256 + d" 24 a] by simp
qed

lemma readVarint_Cons:
  "readVarint (b # rest) 0 =
     (if unat b < 0x80 then Inr \<lparr>value = unat b, bytesRead = 1\<rparr>
      else if unat b < 0xc0 then
        Inr \<lparr>value = (unat b - 0x80) * 256 + byteAt rest 0, bytesRead = 2\<rparr>
      else if unat b < 0xe0 then
        Inr \<lparr>value = (unat b - 0xc0) * 65536 + byteAt rest 0 * 256 + byteAt rest 1,
             bytesRead = 3\<rparr>
      else if unat b < 0xf0 then
        Inr \<lparr>value = (unat b - 0xe0) * 16777216 + byteAt rest 0 * 65536
                       + byteAt rest 1 * 256 + byteAt rest 2,
             bytesRead = 4\<rparr>
      else if unat b < 0xf4 then
        (case readUInt32BE rest 0 of
           Inl e \<Rightarrow> Inl e
         | Inr v \<Rightarrow> Inr \<lparr>value = v, bytesRead = 5\<rparr>)
      else Inr \<lparr>value = 0, bytesRead = 1\<rparr>)"
proof -
  let ?n = "unat b"
  have n: "?n < 256" by (rule unat_byte_lt)
  have r: "readUInt32BE (b # rest) 1 = readUInt32BE rest 0"
    by (simp add: readUInt32BE_def)
  have s: "byteAt (b # rest) 1 = byteAt rest 0" "byteAt (b # rest) 2 = byteAt rest 1"
    "byteAt (b # rest) 3 = byteAt rest 2"
    by (simp_all add: byteAt_def)
  have sub: "subarray (b # rest) 0 = b # rest" by (simp add: subarray_def)
  have ne: "(length (b # rest) = 0) = False" by simp
  have hd: "(b # rest) ! 0 = b" by simp
  have unf: "readVarint (b # rest) 0 =
    (if ?n AND 0x80 = 0 then Inr \<lparr>value = ?n, bytesRead = 1\<rparr>
        else if ?n AND 0xc0 = 0x80 then
          Inr \<lparr>value = push_bit 8 (?n AND 0x3f) OR byteAt rest 0, bytesRead = 2\<rparr>
        else if ?n AND 0xe0 = 0xc0 then
          Inr \<lparr>value = push_bit 16 (?n AND 0x1f) OR push_bit 8 (byteAt rest 0) OR byteAt rest 1,
               bytesRead = 3\<rparr>
        else if ?n AND 0xf0 = 0xe0 then
          Inr \<lparr>value = push_bit 24 (?n AND 0x0f) OR push_bit 16 (byteAt rest 0)
                        OR push_bit 8 (byteAt rest 1) OR byteAt rest 2,
               bytesRead = 4\<rparr>
        else if ?n AND 0xfc = 0xf0 then
          (case readUInt32BE rest 0 of
             Inl e \<Rightarrow> Inl e
           | Inr v \<Rightarrow> Inr \<lparr>value = v, bytesRead = 5\<rparr>)
        else Inr \<lparr>value = 0, bytesRead = 1\<rparr>)"
    by (simp only: readVarint_def Let_def sub ne hd if_False s r)
  show ?thesis
    unfolding unf test_0x80 [OF n] test_0xc0 [OF n] test_0xe0 [OF n] test_0xf0 [OF n] test_0xfc [OF n]
    by (simp add: low_0x3f low_0x1f low_0x0f shift_or_2 shift_or_3_sum shift_or_4_sum byteAt_lt)
qed

lemma writeVarint_1: "v < 0x80 \<Longrightarrow> writeVarint v = Inr [of_nat v]"
  by (simp add: writeVarint_def)

lemma writeVarint_2:
  assumes "0x80 \<le> v" "v < 0x4000"
  shows "writeVarint v = Inr [of_nat (0x80 + v div 256), of_nat (v mod 256)]"
proof -
  have "v div 256 < 128" using assms by simp
  then have "0x80 OR v div 256 = 0x80 + v div 256" by (simp add: or_0x80)
  then show ?thesis using assms
    by (simp add: writeVarint_def drop_bit_eq_div and_0xff)
qed

lemma writeVarint_3:
  assumes "0x4000 \<le> v" "v < 0x200000"
  shows "writeVarint v =
           Inr [of_nat (0xc0 + v div 65536), of_nat (v div 256 mod 256), of_nat (v mod 256)]"
proof -
  have "v div 65536 < 64" using assms by simp
  then have "0xc0 OR v div 65536 = 0xc0 + v div 65536" by (simp add: or_0xc0)
  then show ?thesis using assms
    by (simp add: writeVarint_def drop_bit_eq_div and_0xff)
qed

lemma writeVarint_4:
  assumes "0x200000 \<le> v" "v < 0x10000000"
  shows "writeVarint v =
           Inr [of_nat (0xe0 + v div 16777216), of_nat (v div 65536 mod 256),
                of_nat (v div 256 mod 256), of_nat (v mod 256)]"
proof -
  have "v div 16777216 < 32" using assms by simp
  then have "0xe0 OR v div 16777216 = 0xe0 + v div 16777216" by (simp add: or_0xe0)
  then show ?thesis using assms
    by (simp add: writeVarint_def drop_bit_eq_div and_0xff)
qed

lemma writeVarint_5:
  assumes "0x10000000 \<le> v" "v < 2 ^ 32"
  shows "writeVarint v =
           Inr [0xf0, of_nat (v div 16777216), of_nat (v div 65536), of_nat (v div 256),
                of_nat v]"
  using assms by (simp add: writeVarint_def writeUInt32BE_def drop_bit_eq_div)

lemma readUInt32BE_4:
  "readUInt32BE (a # b # c # d # rest) 0
     = Inr (unat a * 16777216 + unat b * 65536 + unat c * 256 + unat d)"
  by (simp add: readUInt32BE_def)

lemma unat_of_nat_byte_id: "n < 256 \<Longrightarrow> unat (of_nat n :: byte) = n"
  by (simp add: unat_of_nat_byte)

lemma readVarint_of_nat_1:
  "n < 0x80 \<Longrightarrow> readVarint (of_nat n # rest) 0 = Inr \<lparr>value = n, bytesRead = 1\<rparr>"
  by (simp add: readVarint_Cons unat_of_nat_byte_id)

lemma readVarint_of_nat_2:
  "0x80 \<le> n \<Longrightarrow> n < 0xc0 \<Longrightarrow>
   readVarint (of_nat n # b1 # rest) 0
     = Inr \<lparr>value = (n - 0x80) * 256 + unat b1, bytesRead = 2\<rparr>"
  by (simp add: readVarint_Cons unat_of_nat_byte_id byteAt_def)

lemma readVarint_of_nat_3:
  "0xc0 \<le> n \<Longrightarrow> n < 0xe0 \<Longrightarrow>
   readVarint (of_nat n # b1 # b2 # rest) 0
     = Inr \<lparr>value = (n - 0xc0) * 65536 + unat b1 * 256 + unat b2, bytesRead = 3\<rparr>"
  by (simp add: readVarint_Cons unat_of_nat_byte_id byteAt_def)

lemma readVarint_of_nat_4:
  "0xe0 \<le> n \<Longrightarrow> n < 0xf0 \<Longrightarrow>
   readVarint (of_nat n # b1 # b2 # b3 # rest) 0
     = Inr \<lparr>value = (n - 0xe0) * 16777216 + unat b1 * 65536 + unat b2 * 256 + unat b3,
            bytesRead = 4\<rparr>"
  by (simp add: readVarint_Cons unat_of_nat_byte_id byteAt_def)

lemma readVarint_0xf0:
  "readVarint (0xf0 # b1 # b2 # b3 # b4 # rest) 0
     = Inr \<lparr>value = unat b1 * 16777216 + unat b2 * 65536 + unat b3 * 256 + unat b4,
            bytesRead = 5\<rparr>"
  by (simp add: readVarint_Cons readUInt32BE_4)

lemma bytes2_sum: "(v::nat) div 256 * 256 + v mod 256 = v"
  by simp

lemma bytes3_sum:
  "(v::nat) div 65536 * 65536 + v div 256 mod 256 * 256 + v mod 256 = v"
proof -
  let ?q = "v div 256"
  have a: "v div 65536 = ?q div 256"
    using div_mult2_eq [of v 256 256] by simp
  have g: "(x * 256 + y) * 256 = x * 65536 + y * (256::nat)" for x y by simp
  have "?q div 256 * 65536 + ?q mod 256 * 256 = (?q div 256 * 256 + ?q mod 256) * 256"
    by (rule g [symmetric])
  also have "\<dots> = ?q * 256" by (simp only: bytes2_sum)
  finally have "v div 65536 * 65536 + ?q mod 256 * 256 = ?q * 256"
    unfolding a .
  then show ?thesis by (simp only: bytes2_sum)
qed

lemma bytes4_sum:
  "(v::nat) div 16777216 * 16777216 + v div 65536 mod 256 * 65536
     + v div 256 mod 256 * 256 + v mod 256 = v"
proof -
  let ?q = "v div 256"
  have a: "v div 16777216 = ?q div 65536"
    using div_mult2_eq [of v 256 65536] by simp
  have b: "v div 65536 = ?q div 256"
    using div_mult2_eq [of v 256 256] by simp
  have g: "(x * 65536 + y * 256 + z) * 256 = x * 16777216 + y * 65536 + z * (256::nat)"
    for x y z by simp
  have "?q div 65536 * 16777216 + ?q div 256 mod 256 * 65536 + ?q mod 256 * 256
        = (?q div 65536 * 65536 + ?q div 256 mod 256 * 256 + ?q mod 256) * 256"
    by (rule g [symmetric])
  also have "\<dots> = ?q * 256" by (simp only: bytes3_sum)
  finally have "v div 16777216 * 16777216 + v div 65536 mod 256 * 65536 + ?q mod 256 * 256
                = ?q * 256"
    unfolding a b .
  then show ?thesis by (simp only: bytes2_sum)
qed

lemma readVarint_writeVarint_append:
  assumes "v < 2 ^ 32" and w: "writeVarint v = Inr bytes"
  shows "readVarint (bytes @ rest) 0 = Inr \<lparr>value = v, bytesRead = length bytes\<rparr>"
proof -
  consider (1) "v < 0x80" | (2) "0x80 \<le> v" "v < 0x4000" | (3) "0x4000 \<le> v" "v < 0x200000"
    | (4) "0x200000 \<le> v" "v < 0x10000000" | (5) "0x10000000 \<le> v"
    by linarith
  then show ?thesis
  proof cases
    case 1
    then have "bytes = [of_nat v]" using w by (simp add: writeVarint_1)
    then show ?thesis using 1 by (simp add: readVarint_of_nat_1)
  next
    case 2
    define n where "n = 0x80 + v div 256"
    have b: "bytes = [of_nat n, of_nat (v mod 256)]"
      using w 2 by (simp add: writeVarint_2 n_def)
    have "0x80 \<le> n" "n < 0xc0" "(n - 0x80) * 256 + v mod 256 = v"
      using 2 by (simp_all add: n_def)
    then show ?thesis unfolding b
      by (simp add: readVarint_of_nat_2 unat_of_nat_byte)
  next
    case 3
    define n where "n = 0xc0 + v div 65536"
    have b: "bytes = [of_nat n, of_nat (v div 256 mod 256), of_nat (v mod 256)]"
      using w 3 by (simp add: writeVarint_3 n_def)
    have "v div 65536 * 65536 + v div 256 mod 256 * 256 + v mod 256 = v"
      by (rule bytes3_sum)
    then have "0xc0 \<le> n" "n < 0xe0"
      "(n - 0xc0) * 65536 + v div 256 mod 256 * 256 + v mod 256 = v"
      using 3 by (simp_all add: n_def)
    then show ?thesis unfolding b
      by (simp add: readVarint_of_nat_3 unat_of_nat_byte)
  next
    case 4
    define n where "n = 0xe0 + v div 16777216"
    have b: "bytes = [of_nat n, of_nat (v div 65536 mod 256), of_nat (v div 256 mod 256),
                      of_nat (v mod 256)]"
      using w 4 by (simp add: writeVarint_4 n_def)
    have "v div 16777216 * 16777216 + v div 65536 mod 256 * 65536
            + v div 256 mod 256 * 256 + v mod 256 = v"
      by (rule bytes4_sum)
    then have "0xe0 \<le> n" "n < 0xf0"
      "(n - 0xe0) * 16777216 + v div 65536 mod 256 * 65536 + v div 256 mod 256 * 256
         + v mod 256 = v"
      using 4 by (simp_all add: n_def)
    then show ?thesis unfolding b
      by (simp add: readVarint_of_nat_4 unat_of_nat_byte)
  next
    case 5
    have b: "bytes = [0xf0, of_nat (v div 16777216), of_nat (v div 65536), of_nat (v div 256),
                      of_nat v]"
      using w 5 assms(1) by (simp add: writeVarint_5)
    have "v div 16777216 < 256" using assms(1) by simp
    moreover have "v div 16777216 * 16777216 + v div 65536 mod 256 * 65536
            + v div 256 mod 256 * 256 + v mod 256 = v"
      by (rule bytes4_sum)
    ultimately show ?thesis unfolding b
      by (simp add: readVarint_0xf0 unat_of_nat_byte)
  qed
qed

lemma writeVarint_total: "v < 2 ^ 32 \<Longrightarrow> \<exists>bytes. writeVarint v = Inr bytes"
  by (simp add: writeVarint_def writeUInt32BE_def)

section \<open>Claims about the varint codec\<close>

text \<open>
  C2. Every non-negative integer \<open>x\<close> below \<open>2 ^ 32\<close> is encoded by \<open>writeVarint\<close>
  without an exception, and \<open>readVarint\<close> at offset 0 of the encoding returns the value
  \<open>x\<close> with \<open>bytesRead\<close> equal to the length of the encoding.
\<close>

theorem readVarint_writeVarint_roundtrip:
  assumes "x < 2 ^ 32"
  shows "\<exists>bytes. writeVarint x = Inr bytes
           \<and> readVarint bytes 0 = Inr \<lparr>value = x, bytesRead = length bytes\<rparr>"
proof -
  obtain bytes where w: "writeVarint x = Inr bytes"
    using writeVarint_total [OF assms] by blast
  have "readVarint (bytes @ []) 0 = Inr \<lparr>value = x, bytesRead = length bytes\<rparr>"
    using assms w by (rule readVarint_writeVarint_append)
  then show ?thesis using w by simp
qed

text \<open>The round trip at \<open>x = 300\<close>, a two-byte encoding.\<close>

theorem readVarint_writeVarint_roundtrip_witness:
  "\<exists>bytes. writeVarint 300 = Inr bytes
      \<and> readVarint bytes 0 = Inr \<lparr>value = 300, bytesRead = length bytes\<rparr>"
  using readVarint_writeVarint_roundtrip [of 300] by simp

lemma drop_bit_prefix_2: "h < 64 \<Longrightarrow> drop_bit 6 (unat (of_nat (0x80 + h) :: byte)) = 2"
  by (simp only: unat_of_nat_byte drop_bit_eq_div) simp

lemma drop_bit_prefix_3: "h < 32 \<Longrightarrow> drop_bit 5 (unat (of_nat (0xc0 + h) :: byte)) = 6"
  by (simp only: unat_of_nat_byte drop_bit_eq_div) simp

lemma drop_bit_prefix_4: "h < 16 \<Longrightarrow> drop_bit 4 (unat (of_nat (0xe0 + h) :: byte)) = 14"
  by (simp only: unat_of_nat_byte drop_bit_eq_div) simp

text \<open>
  C3. For \<open>x\<close> below \<open>2 ^ 32\<close>, \<open>writeVarint x\<close> is the single byte \<open>x\<close> when
  \<open>x < 0x80\<close>; two bytes whose first has the leading bits 10 when \<open>x < 0x4000\<close>; three
  bytes with leading bits 110 when \<open>x < 0x200000\<close>; four bytes with leading bits 1110
  when \<open>x < 0x10000000\<close>; and otherwise the byte \<open>0xF0\<close> followed by the four bytes of
  \<open>x\<close>, most significant first. The nine boundary values are listed with their
  encodings.
\<close>

theorem writeVarint_widths:
  assumes "x < 2 ^ 32"
  shows "(x < 0x80 \<longrightarrow> writeVarint x = Inr [of_nat x])
       \<and> (0x80 \<le> x \<and> x < 0x4000 \<longrightarrow>
            (\<exists>b0 b1. writeVarint x = Inr [b0, b1] \<and> drop_bit 6 (unat b0) = 2))
       \<and> (0x4000 \<le> x \<and> x < 0x200000 \<longrightarrow>
            (\<exists>b0 b1 b2. writeVarint x = Inr [b0, b1, b2] \<and> drop_bit 5 (unat b0) = 6))
       \<and> (0x200000 \<le> x \<and> x < 0x10000000 \<longrightarrow>
            (\<exists>b0 b1 b2 b3. writeVarint x = Inr [b0, b1, b2, b3] \<and> drop_bit 4 (unat b0) = 14))
       \<and> (0x10000000 \<le> x \<longrightarrow>
            writeVarint x = Inr [0xf0, of_nat (drop_bit 24 x), of_nat (drop_bit 16 x),
                                 of_nat (drop_bit 8 x), of_nat x])
       \<and> writeVarint 0 = Inr [0x00]
       \<and> writeVarint 127 = Inr [0x7f]
       \<and> writeVarint 128 = Inr [0x80, 0x80]
       \<and> writeVarint 16383 = Inr [0xbf, 0xff]
       \<and> writeVarint 16384 = Inr [0xc0, 0x40, 0x00]
       \<and> writeVarint 2097151 = Inr [0xdf, 0xff, 0xff]
       \<and> writeVarint 2097152 = Inr [0xe0, 0x20, 0x00, 0x00]
       \<and> writeVarint 268435455 = Inr [0xef, 0xff, 0xff, 0xff]
       \<and> writeVarint 268435456 = Inr [0xf0, 0x10, 0x00, 0x00, 0x00]"
proof -
  have w1: "x < 0x80 \<longrightarrow> writeVarint x = Inr [of_nat x]"
    by (simp add: writeVarint_1)
  have w2: "0x80 \<le> x \<and> x < 0x4000 \<longrightarrow>
            (\<exists>b0 b1. writeVarint x = Inr [b0, b1] \<and> drop_bit 6 (unat b0) = 2)"
  proof
    assume r: "0x80 \<le> x \<and> x < 0x4000"
    then have "x < 64 * 256" by simp
    then have "x div 256 < 64" by (simp only: div_less_iff_less_mult zero_less_numeral)
    then have "drop_bit 6 (unat (of_nat (0x80 + x div 256) :: byte)) = 2"
      by (rule drop_bit_prefix_2)
    then show "\<exists>b0 b1. writeVarint x = Inr [b0, b1] \<and> drop_bit 6 (unat b0) = 2"
      using r writeVarint_2 [of x] by blast
  qed
  have w3: "0x4000 \<le> x \<and> x < 0x200000 \<longrightarrow>
            (\<exists>b0 b1 b2. writeVarint x = Inr [b0, b1, b2] \<and> drop_bit 5 (unat b0) = 6)"
  proof
    assume r: "0x4000 \<le> x \<and> x < 0x200000"
    then have "x < 32 * 65536" by simp
    then have "x div 65536 < 32" by (simp only: div_less_iff_less_mult zero_less_numeral)
    then have "drop_bit 5 (unat (of_nat (0xc0 + x div 65536) :: byte)) = 6"
      by (rule drop_bit_prefix_3)
    then show "\<exists>b0 b1 b2. writeVarint x = Inr [b0, b1, b2] \<and> drop_bit 5 (unat b0) = 6"
      using r writeVarint_3 [of x] by blast
  qed
  have w4: "0x200000 \<le> x \<and> x < 0x10000000 \<longrightarrow>
            (\<exists>b0 b1 b2 b3. writeVarint x = Inr [b0, b1, b2, b3] \<and> drop_bit 4 (unat b0) = 14)"
  proof
    assume r: "0x200000 \<le> x \<and> x < 0x10000000"
    then have "x < 16 * 16777216" by simp
    then have "x div 16777216 < 16" by (simp only: div_less_iff_less_mult zero_less_numeral)
    then have "drop_bit 4 (unat (of_nat (0xe0 + x div 16777216) :: byte)) = 14"
      by (rule drop_bit_prefix_4)
    then show "\<exists>b0 b1 b2 b3. writeVarint x = Inr [b0, b1, b2, b3] \<and> drop_bit 4 (unat b0) = 14"
      using r writeVarint_4 [of x] by blast
  qed
  have w5: "0x10000000 \<le> x \<longrightarrow>
            writeVarint x = Inr [0xf0, of_nat (drop_bit 24 x), of_nat (drop_bit 16 x),
                                 of_nat (drop_bit 8 x), of_nat x]"
    using assms by (simp add: writeVarint_def writeUInt32BE_def)
  have b: "writeVarint 0 = Inr [0x00]" "writeVarint 127 = Inr [0x7f]"
    "writeVarint 128 = Inr [0x80, 0x80]" "writeVarint 16383 = Inr [0xbf, 0xff]"
    "writeVarint 16384 = Inr [0xc0, 0x40, 0x00]"
    "writeVarint 2097151 = Inr [0xdf, 0xff, 0xff]"
    "writeVarint 2097152 = Inr [0xe0, 0x20, 0x00, 0x00]"
    "writeVarint 268435455 = Inr [0xef, 0xff, 0xff, 0xff]"
    "writeVarint 268435456 = Inr [0xf0, 0x10, 0x00, 0x00, 0x00]"
    by (simp_all add: writeVarint_def writeUInt32BE_def drop_bit_eq_div)
  show ?thesis by (intro conjI) (fact w1 w2 w3 w4 w5 b)+
qed

text \<open>The two-byte case at \<open>x = 300\<close>.\<close>

theorem writeVarint_widths_witness:
  "\<exists>b0 b1. writeVarint 300 = Inr [b0, b1] \<and> drop_bit 6 (unat b0) = 2"
  using writeVarint_widths [of 300] by simp

lemma readVarint_no_data:
  "length buffer \<le> offset \<Longrightarrow> readVarint buffer offset = Inr \<lparr>value = 0, bytesRead = 0\<rparr>"
  by (simp add: readVarint_def subarray_def)

text \<open>
  C4. \<open>readVarint\<close> is claimed to return for every buffer, never to read past the end,
  and never to report more bytes than are there. On the one-byte buffer \<open>[0xF0]\<close> the
  call \<open>readUInt32BE(1)\<close> throws, and on the one-byte buffer \<open>[0x80]\<close> the missing
  second byte is read as 0 and \<open>bytesRead\<close> is 2. Only the empty buffer is guarded
  (\<open>readVarint_no_data\<close>).
\<close>

theorem readVarint_truncated_input:
  "readVarint [0xf0] 0 = Inl RangeError
   \<and> readVarint [0x80] 0 = Inr \<lparr>value = 0, bytesRead = 2\<rparr>
   \<and> length (subarray [0x80] 0) = 1"
  by (simp add: readVarint_def subarray_def readUInt32BE_def byteAt_def)

lemma writeVarint_dist_small: "v < 0x80 \<Longrightarrow> writeVarint v = Inr (writeVarint_dist v)"
  by (simp add: writeVarint_def and_0x7f)

text \<open>
  C5. The encoder of the TypeScript source and the encoder of dist/mumble-audio.js are
  claimed to produce the same bytes. They agree below \<open>0x80\<close>
  (\<open>writeVarint_dist_small\<close>) and differ at 128: the source emits the big-endian
  form \<open>[0x80, 0x80]\<close>, the compiled module the little-endian base-128 form
  \<open>[0x80, 0x01]\<close>.
\<close>

theorem writeVarint_dist_differs:
  "writeVarint 128 = Inr [0x80, 0x80] \<and> writeVarint_dist 128 = [0x80, 0x01]"
  by (simp add: writeVarint_def drop_bit_eq_div take_bit_eq_mod)

lemma readVarint_drop: "readVarint buf off = readVarint (drop off buf) 0"
  by (simp add: readVarint_def subarray_def)

lemma header_value:
  assumes "(c::nat) < 8" "(g::nat) < 32"
  shows "push_bit 5 (c AND 0x07) OR (g AND 0x1f) = c * 32 + g"
  using assms or_add [of g 5 c] by (simp add: and_0x07 and_0x1f)

lemma header_codec:
  assumes "(c::nat) < 8" "(g::nat) < 32"
  shows "drop_bit 5 (c * 32 + g) AND 0x07 = c"
  using assms by (simp add: and_0x07 drop_bit_eq_div)

lemma header_target:
  assumes "(g::nat) < 32"
  shows "(c * 32 + g) AND 0x1f = g"
  using assms by (simp add: and_0x1f)

lemma header_byte:
  assumes "(c::nat) < 8" "(g::nat) < 32"
  shows "unat (of_nat (c * 32 + g) :: byte) = c * 32 + g"
proof -
  have "c * 32 + g < 256" using assms by simp
  then show ?thesis by (rule unat_of_nat_byte_id)
qed

lemma lengthValue_plain:
  assumes "(n::nat) \<le> 0x1FFF"
  shows "n AND 0x1fff = n" "n AND 0x2000 = 0"
  using assms by (simp_all add: and_0x1fff and_0x2000)

lemma lengthValue_terminator:
  assumes "(n::nat) \<le> 0x1FFF"
  shows "(n OR 0x2000) AND 0x1fff = n" "(n OR 0x2000) AND 0x2000 = 0x2000"
    "n OR 0x2000 < 0x4000"
  using assms by (simp_all add: or_0x2000 and_0x1fff and_0x2000)

lemma createAudioPacket_not_Opus:
  assumes "codec t \<noteq> Opus" "writeVarint (sequence t) = Inr qv"
  shows "createAudioPacket t
         = Inr (of_nat (push_bit 5 (codec t AND 0x07) OR (target t AND 0x1f)) # qv @ audioData t)"
  using assms by (simp add: createAudioPacket_def)

lemma createAudioPacket_Opus:
  assumes "codec t = Opus" "writeVarint (sequence t) = Inr qv"
    "writeVarint (if isTerminator t then (length (audioData t) AND 0x1fff) OR 0x2000
                  else length (audioData t) AND 0x1fff) = Inr lv"
  shows "createAudioPacket t
         = Inr (of_nat (push_bit 5 (codec t AND 0x07) OR (target t AND 0x1f))
                # qv @ lv @ audioData t)"
  using assms by (simp add: createAudioPacket_def Let_def)

lemma parseAudioPacket_step:
  assumes "data \<noteq> []"
    and "readVarint data 1 = Inr session"
    and "readVarint data (1 + bytesRead session) = Inr sq"
  shows "parseAudioPacket data =
     (if drop_bit 5 (unat (data ! 0)) AND 0x07 = Opus then
        (case readVarint data (1 + bytesRead session + bytesRead sq) of
           Inl e \<Rightarrow> Inl e
         | Inr opusHeader \<Rightarrow>
             if 1 + bytesRead session + bytesRead sq + bytesRead opusHeader
                  + (value opusHeader AND 0x1fff) > length data
             then Inr None
             else Inr (Some \<lparr>codec = drop_bit 5 (unat (data ! 0)) AND 0x07,
                              target = unat (data ! 0) AND 0x1f,
                              sequence = value sq,
                              audioData = subarray2 data
                                (1 + bytesRead session + bytesRead sq + bytesRead opusHeader)
                                (1 + bytesRead session + bytesRead sq + bytesRead opusHeader
                                   + (value opusHeader AND 0x1fff)),
                              isTerminator = (value opusHeader AND 0x2000 \<noteq> 0),
                              source = value session\<rparr>))
      else Inr (Some \<lparr>codec = drop_bit 5 (unat (data ! 0)) AND 0x07,
                       target = unat (data ! 0) AND 0x1f,
                       sequence = value sq,
                       audioData = subarray data (1 + bytesRead session + bytesRead sq),
                       isTerminator = False, source = value session\<rparr>))"
proof -
  have ne: "(length data < 1) = False" using assms(1) by (cases data) simp_all
  show ?thesis
    by (simp only: parseAudioPacket_def Let_def ne if_False assms(2,3) sum.case)
qed

lemma parseAudioPacket_not_Opus:
  assumes "drop_bit 5 (unat h) AND 0x07 \<noteq> Opus"
    "readVarint (sv @ qv @ rest) 0 = Inr \<lparr>value = s, bytesRead = length sv\<rparr>"
    "readVarint (qv @ rest) 0 = Inr \<lparr>value = q, bytesRead = length qv\<rparr>"
  shows "parseAudioPacket (h # sv @ qv @ rest)
         = Inr (Some \<lparr>codec = drop_bit 5 (unat h) AND 0x07, target = unat h AND 0x1f,
                      sequence = q, audioData = rest, isTerminator = False, source = s\<rparr>)"
proof -
  let ?data = "h # sv @ qv @ rest"
  let ?s = "\<lparr>value = s, bytesRead = length sv\<rparr>"
  let ?q = "\<lparr>value = q, bytesRead = length qv\<rparr>"
  have r1: "readVarint ?data 1 = Inr ?s"
    by (subst readVarint_drop) (simp add: assms(2))
  have r2: "readVarint ?data (1 + bytesRead ?s) = Inr ?q"
    by (subst readVarint_drop) (simp add: assms(3))
  have ne: "?data \<noteq> []" by simp
  show ?thesis
    unfolding parseAudioPacket_step [OF ne r1 r2]
    using assms(1) by (simp add: subarray_def)
qed

lemma parseAudioPacket_Opus:
  assumes "drop_bit 5 (unat h) AND 0x07 = Opus"
    "readVarint (sv @ qv @ lv @ payload) 0 = Inr \<lparr>value = s, bytesRead = length sv\<rparr>"
    "readVarint (qv @ lv @ payload) 0 = Inr \<lparr>value = q, bytesRead = length qv\<rparr>"
    "readVarint (lv @ payload) 0 = Inr \<lparr>value = l, bytesRead = length lv\<rparr>"
    "l AND 0x1fff = length payload"
  shows "parseAudioPacket (h # sv @ qv @ lv @ payload)
         = Inr (Some \<lparr>codec = Opus, target = unat h AND 0x1f,
                      sequence = q, audioData = payload,
                      isTerminator = (l AND 0x2000 \<noteq> 0), source = s\<rparr>)"
proof -
  let ?data = "h # sv @ qv @ lv @ payload"
  let ?s = "\<lparr>value = s, bytesRead = length sv\<rparr>"
  let ?q = "\<lparr>value = q, bytesRead = length qv\<rparr>"
  let ?l = "\<lparr>value = l, bytesRead = length lv\<rparr>"
  have r1: "readVarint ?data 1 = Inr ?s"
    by (subst readVarint_drop) (simp add: assms(2))
  have r2: "readVarint ?data (1 + bytesRead ?s) = Inr ?q"
    by (subst readVarint_drop) (simp add: assms(3))
  have r3: "readVarint ?data (1 + bytesRead ?s + bytesRead ?q) = Inr ?l"
    by (subst readVarint_drop) (simp add: assms(4))
  have ne: "?data \<noteq> []" by simp
  show ?thesis
    unfolding parseAudioPacket_step [OF ne r1 r2] r3
    using assms(1,5) by (simp add: subarray2_def)
qed

section \<open>Claims about the audio packet codec\<close>

text \<open>
  C1, as stated, fails. \<open>createAudioPacket\<close> writes no session varint, while
  \<open>parseAudioPacket\<close> reads one after the header: the packet built for Opus with
  sequence number 5 and an empty payload parses with source 5 and sequence 0. And the
  terminator flag is only encoded for Opus: the packet built for codec 0 with the flag set
  parses with the flag clear.
\<close>

theorem createAudioPacket_parse_counterexample:
  "createAudioPacket \<lparr>codec = Opus, target = 0, sequence = 5, audioData = [],
                       isTerminator = False\<rparr> = Inr [0x80, 0x05, 0x00]
   \<and> parseAudioPacket [0x80, 0x05, 0x00]
       = Inr (Some \<lparr>codec = Opus, target = 0, sequence = 0, audioData = [],
                    isTerminator = False, source = 5\<rparr>)
   \<and> createAudioPacket \<lparr>codec = CELT_Alpha, target = 0, sequence = 0, audioData = [],
                         isTerminator = True\<rparr> = Inr [0x00, 0x00]
   \<and> parseAudioPacket [0x00, 0x00]
       = Inr (Some \<lparr>codec = CELT_Alpha, target = 0, sequence = 0, audioData = [],
                    isTerminator = False, source = 0\<rparr>)"
  by (simp add: createAudioPacket_def parseAudioPacket_def writeVarint_def readVarint_def
      subarray_def subarray2_def byteAt_def Opus_def CELT_Alpha_def)

text \<open>
  C1, amended. For a tuple \<open>t\<close> with codec below 8, target below 32, sequence below
  \<open>2 ^ 32\<close> and, for Opus, at most \<open>0x1FFF\<close> payload bytes, and a session id \<open>s\<close> below
  \<open>2 ^ 32\<close>: the buffer built by \<open>createAudioPacket t\<close>, with the varint of \<open>s\<close>
  inserted after its header byte, parses to a packet with source \<open>s\<close> and with the
  codec, target, sequence and payload of \<open>t\<close>, for every payload length; its terminator
  flag is that of \<open>t\<close> for Opus and false for any other codec.
\<close>

theorem createAudioPacket_with_session_roundtrip:
  assumes "codec t < 8" and "target t < 32" and "sequence t < 2 ^ 32"
    and "codec t = Opus \<longrightarrow> length (audioData t) \<le> 0x1FFF"
    and "s < 2 ^ 32"
  shows "\<exists>h body sv.
           createAudioPacket t = Inr (h # body) \<and> writeVarint s = Inr sv
           \<and> parseAudioPacket (h # sv @ body)
               = Inr (Some \<lparr>codec = codec t, target = target t, sequence = sequence t,
                            audioData = audioData t,
                            isTerminator = (codec t = Opus \<and> isTerminator t),
                            source = s\<rparr>)"
proof -
  obtain sv where sv: "writeVarint s = Inr sv"
    using writeVarint_total [OF assms(5)] by blast
  obtain qv where qv: "writeVarint (sequence t) = Inr qv"
    using writeVarint_total [OF assms(3)] by blast
  define h :: byte where "h = of_nat (push_bit 5 (codec t AND 0x07) OR (target t AND 0x1f))"
  have hv: "unat h = codec t * 32 + target t"
    unfolding h_def header_value [OF assms(1,2)] by (rule header_byte [OF assms(1,2)])
  have hc: "drop_bit 5 (unat h) AND 0x07 = codec t"
    unfolding hv by (rule header_codec [OF assms(1,2)])
  have ht: "unat h AND 0x1f = target t"
    unfolding hv by (rule header_target [OF assms(2)])
  show ?thesis
  proof (cases "codec t = Opus")
    case False
    have c: "createAudioPacket t = Inr (h # qv @ audioData t)"
      unfolding h_def using False qv by (rule createAudioPacket_not_Opus)
    have r1: "readVarint (sv @ qv @ audioData t) 0 = Inr \<lparr>value = s, bytesRead = length sv\<rparr>"
      using assms(5) sv by (rule readVarint_writeVarint_append)
    have r2: "readVarint (qv @ audioData t) 0
              = Inr \<lparr>value = sequence t, bytesRead = length qv\<rparr>"
      using assms(3) qv by (rule readVarint_writeVarint_append)
    have "drop_bit 5 (unat h) AND 0x07 \<noteq> Opus" using False hc by simp
    then have "parseAudioPacket (h # sv @ qv @ audioData t)
         = Inr (Some \<lparr>codec = drop_bit 5 (unat h) AND 0x07, target = unat h AND 0x1f,
                      sequence = sequence t, audioData = audioData t, isTerminator = False,
                      source = s\<rparr>)"
      using r1 r2 by (rule parseAudioPacket_not_Opus)
    then show ?thesis using c sv False by (simp add: hc ht)
  next
    case True
    let ?n = "length (audioData t)"
    let ?l = "if isTerminator t then (?n AND 0x1fff) OR 0x2000 else ?n AND 0x1fff"
    have n: "?n \<le> 0x1FFF" using assms(4) True by simp
    have l1: "?l AND 0x1fff = ?n"
      using lengthValue_plain [OF n] lengthValue_terminator [OF n] by simp
    have l2: "(?l AND 0x2000 \<noteq> 0) = isTerminator t"
      using lengthValue_plain [OF n] lengthValue_terminator [OF n] by simp
    have l3: "?l < 2 ^ 32"
      using lengthValue_plain [OF n] lengthValue_terminator [OF n] n by simp
    obtain lv where lv: "writeVarint ?l = Inr lv"
      using writeVarint_total [OF l3] by blast
    have c: "createAudioPacket t = Inr (h # qv @ lv @ audioData t)"
      unfolding h_def using True qv lv by (rule createAudioPacket_Opus)
    have r1: "readVarint (sv @ qv @ lv @ audioData t) 0
              = Inr \<lparr>value = s, bytesRead = length sv\<rparr>"
      using assms(5) sv by (rule readVarint_writeVarint_append)
    have r2: "readVarint (qv @ lv @ audioData t) 0
              = Inr \<lparr>value = sequence t, bytesRead = length qv\<rparr>"
      using assms(3) qv by (rule readVarint_writeVarint_append)
    have r3: "readVarint (lv @ audioData t) 0 = Inr \<lparr>value = ?l, bytesRead = length lv\<rparr>"
      using l3 lv by (rule readVarint_writeVarint_append)
    have "drop_bit 5 (unat h) AND 0x07 = Opus" using True hc by simp
    then have "parseAudioPacket (h # sv @ qv @ lv @ audioData t)
         = Inr (Some \<lparr>codec = Opus, target = unat h AND 0x1f,
                      sequence = sequence t, audioData = audioData t,
                      isTerminator = (?l AND 0x2000 \<noteq> 0), source = s\<rparr>)"
      using r1 r2 r3 l1 by (rule parseAudioPacket_Opus)
    then show ?thesis using c sv True unfolding l2 by (simp add: ht)
  qed
qed

text \<open>The amended round trip for an Opus terminator packet with two payload bytes.\<close>

theorem createAudioPacket_with_session_roundtrip_witness:
  "\<exists>h body sv.
     createAudioPacket \<lparr>codec = Opus, target = 3, sequence = 300, audioData = [0xAA, 0xBB],
                         isTerminator = True\<rparr> = Inr (h # body)
     \<and> writeVarint 7 = Inr sv
     \<and> parseAudioPacket (h # sv @ body)
         = Inr (Some \<lparr>codec = Opus, target = 3, sequence = 300, audioData = [0xAA, 0xBB],
                      isTerminator = True, source = 7\<rparr>)"
  using createAudioPacket_with_session_roundtrip
    [of "\<lparr>codec = Opus, target = 3, sequence = 300, audioData = [0xAA, 0xBB],
          isTerminator = True\<rparr>" 7]
  by (simp add: Opus_def)

lemma parseAudioPacket_Opus_incomplete:
  assumes "data \<noteq> []"
    and "drop_bit 5 (unat (data ! 0)) AND 0x07 = Opus"
    and "readVarint data 1 = Inr session"
    and "readVarint data (1 + bytesRead session) = Inr sq"
    and "readVarint data (1 + bytesRead session + bytesRead sq) = Inr opusHeader"
    and "value opusHeader AND 0x1fff
           > length data - (1 + bytesRead session + bytesRead sq + bytesRead opusHeader)"
  shows "parseAudioPacket data = Inr None"
  unfolding parseAudioPacket_step [OF assms(1,3,4)] assms(5)
  using assms(2,6) by simp

lemma parseAudioPacket_Opus_payload_length:
  assumes "data \<noteq> []"
    and "drop_bit 5 (unat (data ! 0)) AND 0x07 = Opus"
    and "readVarint data 1 = Inr session"
    and "readVarint data (1 + bytesRead session) = Inr sq"
    and "readVarint data (1 + bytesRead session + bytesRead sq) = Inr opusHeader"
    and "parseAudioPacket data = Inr (Some p)"
  shows "length (audioData p) = value opusHeader AND 0x1fff"
  using assms(6) unfolding parseAudioPacket_step [OF assms(1,3,4)] assms(5)
  using assms(2) by (auto simp add: subarray2_def split: if_splits)

lemma parseAudioPacket_other_codec:
  assumes "data \<noteq> []"
    and "drop_bit 5 (unat (data ! 0)) AND 0x07 \<noteq> Opus"
    and "readVarint data 1 = Inr session"
    and "readVarint data (1 + bytesRead session) = Inr sq"
  shows "\<exists>p. parseAudioPacket data = Inr (Some p)
             \<and> audioData p = drop (1 + bytesRead session + bytesRead sq) data
             \<and> isTerminator p = False"
  unfolding parseAudioPacket_step [OF assms(1,3,4)]
  using assms(2) by (simp add: subarray_def)

text \<open>
  C6. For an Opus buffer whose declared payload length exceeds what is left,
  \<open>parseAudioPacket\<close> returns \<open>null\<close> (\<open>parseAudioPacket_Opus_incomplete\<close>), and a
  packet it returns carries the declared number of bytes
  (\<open>parseAudioPacket_Opus_payload_length\<close>). The claim that it never throws fails:
  on an Opus buffer that ends inside a length varint of prefix \<open>0xF0\<close> the exception of
  \<open>readUInt32BE\<close> escapes.
\<close>

theorem parseAudioPacket_Opus_truncated_varint_throws:
  "parseAudioPacket [0x80, 0x00, 0x00, 0xf0] = Inl RangeError"
  by (simp add: parseAudioPacket_def readVarint_def subarray_def readUInt32BE_def Opus_def)

text \<open>
  C8. For a buffer of any other codec, \<open>parseAudioPacket\<close> returns the rest of the buffer
  after the two varints, with the terminator flag clear, whenever both varints can be read
  (\<open>parseAudioPacket_other_codec\<close>). It does not do so for every such buffer: when the
  buffer ends inside a varint of prefix \<open>0xF0\<close> the exception of \<open>readUInt32BE\<close>
  escapes and no packet is returned.
\<close>

theorem parseAudioPacket_other_codec_truncated_varint_throws:
  "parseAudioPacket [0x00, 0xf0] = Inl RangeError"
  by (simp add: parseAudioPacket_def readVarint_def subarray_def readUInt32BE_def Opus_def)

lemma be32_value:
  assumes "n \<le> 0xFFFFFFFF"
  shows "unat (of_nat (drop_bit 24 n) :: byte) * 16777216
         + unat (of_nat (drop_bit 16 n) :: byte) * 65536
         + unat (of_nat (drop_bit 8 n) :: byte) * 256
         + unat (of_nat n :: byte) = n"
proof -
  have "n < 256 * 16777216" using assms by simp
  then have "n div 16777216 < 256" by (simp only: div_less_iff_less_mult zero_less_numeral)
  then have "n div 16777216 mod 256 = n div 16777216" by simp
  then show ?thesis
    using bytes4_sum [of n] by (simp add: unat_of_nat_byte drop_bit_eq_div)
qed








lemma tunnelWrite_written:
  "socket_written (snd (tunnelWrite this packet))
     = (if length packet \<le> 0xFFFFFFFF
        then socket_written this @
               [[0x00, 0x01] @ [of_nat (drop_bit 24 (length packet)),
                                of_nat (drop_bit 16 (length packet)),
                                of_nat (drop_bit 8 (length packet)),
                                of_nat (length packet)] @ packet]
        else socket_written this)"
  by (simp add: tunnelWrite_def writeUInt16BE_def writeUInt32BE_def)

section \<open>Claims about the outbound stream\<close>

text \<open>
  C9. Whenever \<open>sendAudio\<close> writes to the socket, it writes one buffer: the two bytes
  \<open>0x00 0x01\<close> (type 1, big-endian), four bytes that hold the length of the built packet,
  most significant first, and the packet built by \<open>createAudioPacket\<close> from the arguments
  and the current sequence number.
\<close>

theorem sendAudio_writes_tunnel_frame:
  assumes "socket_written (snd (sendAudio this a c g tm)) \<noteq> socket_written this"
  shows "\<exists>packet b3 b2 b1 b0.
           createAudioPacket \<lparr>codec = c, target = g, sequence = stream_sequence this,
                               audioData = a, isTerminator = tm\<rparr> = Inr packet
           \<and> socket_written (snd (sendAudio this a c g tm))
               = socket_written this @ [[0x00, 0x01] @ [b3, b2, b1, b0] @ packet]
           \<and> unat b3 * 2 ^ 24 + unat b2 * 2 ^ 16 + unat b1 * 2 ^ 8 + unat b0 = length packet"
proof -
  let ?P = "\<lparr>codec = c, target = g, sequence = stream_sequence this,
             audioData = a, isTerminator = tm\<rparr>"
  let ?next = "this\<lparr>stream_sequence := postIncrement (stream_sequence this)\<rparr>"
  obtain packet where p: "createAudioPacket ?P = Inr packet"
    using assms by (cases "createAudioPacket ?P") (simp_all add: sendAudio_def Let_def)
  have s: "sendAudio this a c g tm = tunnelWrite ?next packet"
    using p by (simp add: sendAudio_def Let_def)
  have n: "length packet \<le> 0xFFFFFFFF"
    using assms unfolding s tunnelWrite_written by (simp split: if_splits)
  have "socket_written (snd (sendAudio this a c g tm)) = socket_written this @
          [[0x00, 0x01] @ [of_nat (drop_bit 24 (length packet)),
                           of_nat (drop_bit 16 (length packet)),
                           of_nat (drop_bit 8 (length packet)),
                           of_nat (length packet)] @ packet]"
    unfolding s tunnelWrite_written using n by simp
  then show ?thesis using p be32_value [OF n] by auto
qed

text \<open>The frame written for a first Opus terminator packet with three payload bytes.\<close>

theorem sendAudio_writes_tunnel_frame_witness:
  "\<exists>packet b3 b2 b1 b0.
     createAudioPacket \<lparr>codec = Opus, target = 0, sequence = 0,
                         audioData = [0x01, 0x02, 0x03], isTerminator = True\<rparr> = Inr packet
     \<and> socket_written (snd (sendAudio new_MumbleAudioStream [0x01, 0x02, 0x03] Opus 0 True))
         = [[0x00, 0x01] @ [b3, b2, b1, b0] @ packet]
     \<and> unat b3 * 2 ^ 24 + unat b2 * 2 ^ 16 + unat b1 * 2 ^ 8 + unat b0 = length packet"
proof -
  have len: "length [0x01, 0x02, 0x03 :: byte] = 3" by simp
  have c: "createAudioPacket \<lparr>codec = Opus, target = 0, sequence = 0,
                               audioData = [0x01, 0x02, 0x03], isTerminator = True\<rparr>
           = Inr [0x80, 0x00, 0xa0, 0x03, 0x01, 0x02, 0x03]"
    by (simp only: createAudioPacket_def Let_def AudioParams.select_convs len)
      (simp add: Opus_def writeVarint_def drop_bit_eq_div and_0x1fff or_0x2000 and_0xff or_0x80)
  have len7: "length [0x80, 0x00, 0xa0, 0x03, 0x01, 0x02, 0x03 :: byte] = 7" by simp
  have "socket_written (snd (sendAudio new_MumbleAudioStream [0x01, 0x02, 0x03] Opus 0 True))
        = [[0x00, 0x01, 0x00, 0x00, 0x00, 0x07, 0x80, 0x00, 0xa0, 0x03, 0x01, 0x02, 0x03]]"
    by (simp only: sendAudio_def Let_def new_MumbleAudioStream_def
          MumbleAudioStream.select_convs c sum.case tunnelWrite_written len7)
      (simp add: drop_bit_eq_div)
  then have "socket_written (snd (sendAudio new_MumbleAudioStream [0x01, 0x02, 0x03] Opus 0 True))
             \<noteq> socket_written new_MumbleAudioStream"
    by (simp add: new_MumbleAudioStream_def)
  from sendAudio_writes_tunnel_frame [OF this] show ?thesis
    by (simp add: new_MumbleAudioStream_def)
qed




section \<open>Claims about speech segmentation\<close>

text \<open>
  C7. For a source with a live session, a packet with the terminator flag appends its
  samples, leaves no silence timer armed for the source, and flushes at once: the session
  is removed and one flush of the whole accumulated audio is recorded. The duration
  threshold only decides whether that flush is forwarded.
\<close>

theorem terminator_flushes_immediately:
  assumes "sessions st src = Some buf"
  shows "sessions (handleAudioPacket cfg now st src samples True) src = None
       \<and> silenceTimers (handleAudioPacket cfg now st src samples True) src = None
       \<and> flushes (handleAudioPacket cfg now st src samples True)
           = flushes st @
               [\<lparr>flush_source = src, flush_audio = buf @ samples,
                 forwarded = (minSpeechDurationMs cfg \<le> durationMs (buf @ samples)
                              \<and> allowed cfg src)\<rparr>]"
  using assms by (simp add: handleAudioPacket_def flush_def Let_def not_less)

text \<open>
  Three samples in all, far below the 500 ms threshold: the flush happens and is not
  forwarded.
\<close>

theorem terminator_flushes_immediately_witness:
  "sessions (handleAudioPacket
       \<lparr>minSpeechDurationMs = 500, silenceTimeoutMs = 500, allowList = []\<rparr> 0
       \<lparr>sessions = Map.empty(7 \<mapsto> [1, 2]), silenceTimers = Map.empty(7 \<mapsto> 500), flushes = []\<rparr>
       7 [3] True) 7 = None
   \<and> silenceTimers (handleAudioPacket
       \<lparr>minSpeechDurationMs = 500, silenceTimeoutMs = 500, allowList = []\<rparr> 0
       \<lparr>sessions = Map.empty(7 \<mapsto> [1, 2]), silenceTimers = Map.empty(7 \<mapsto> 500), flushes = []\<rparr>
       7 [3] True) 7 = None
   \<and> flushes (handleAudioPacket
       \<lparr>minSpeechDurationMs = 500, silenceTimeoutMs = 500, allowList = []\<rparr> 0
       \<lparr>sessions = Map.empty(7 \<mapsto> [1, 2]), silenceTimers = Map.empty(7 \<mapsto> 500), flushes = []\<rparr>
       7 [3] True)
     = [\<lparr>flush_source = 7, flush_audio = [1, 2, 3], forwarded = False\<rparr>]"
  using terminator_flushes_immediately
    [of "\<lparr>sessions = Map.empty(7 \<mapsto> [1, 2]), silenceTimers = Map.empty(7 \<mapsto> 500),
          flushes = []\<rparr>" 7 "[1, 2]"
        "\<lparr>minSpeechDurationMs = 500, silenceTimeoutMs = 500, allowList = []\<rparr>" 0 "[3]"]
  by (simp add: durationMs_def)

end
